theory Spec2Isabelle
  imports Complex_Main "HOL-Library.AList" "HOL-Library.Sublist"
begin

section \<open>Sentinel Stream: the fraud detection engine\<close>

text \<open>
  A shallow embedding of \<^verbatim>\<open>consumer/fraud_detector.py\<close> and of the message
  handling of \<^verbatim>\<open>consumer/main.py\<close>.

  Conventions of the embedding.
  \<^item> Python \<^verbatim>\<open>float\<close> values are real numbers: rounding, infinities and NaN are
    outside the model.
  \<^item> Python \<^verbatim>\<open>int\<close> values are \<^typ>\<open>int\<close>.
  \<^item> An exception is a value of \<open>py_error\<close>; a method that mutates its object and may
    raise returns the exception (if any) together with the object as the raise leaves it.
  \<^item> A \<^verbatim>\<open>dict\<close> is an association list with distinct keys in insertion order.
\<close>

datatype py_error = TypeError | OverflowError | IndexError | ValidationError | ModelError

subsection \<open>\<^verbatim>\<open>datetime\<close>\<close>

text \<open>
  A \<^verbatim>\<open>datetime\<close> is its wall-clock reading, in microseconds since
  1970-01-01T00:00:00 of its own clock, and its UTC offset in microseconds: \<open>None\<close> for
  a naive value (as \<^verbatim>\<open>datetime.utcnow()\<close> returns), \<open>Some off\<close> for an aware one (as
  a parsed ISO-8601 text with a trailing \<^verbatim>\<open>Z\<close> or a numeric offset is).
  Ordering and subtraction of a naive and an aware value raise \<^verbatim>\<open>TypeError\<close>.
\<close>

record datetime =
  wall :: int
  utcoffset :: "int option"

definition MIN_WALL :: int where
  "MIN_WALL = - 62135596800000000"

definition MAX_WALL :: int where
  "MAX_WALL = 253402300799999999"

definition utc_instant :: "datetime \<Rightarrow> int" where
  "utc_instant d = (case utcoffset d of None \<Rightarrow> wall d | Some off \<Rightarrow> wall d - off)"

definition comparable :: "datetime \<Rightarrow> datetime \<Rightarrow> bool" where
  "comparable a b = ((utcoffset a = None) = (utcoffset b = None))"

definition dt_ge :: "datetime \<Rightarrow> datetime \<Rightarrow> py_error + bool" where
  "dt_ge a b = (if comparable a b then Inr (utc_instant b \<le> utc_instant a) else Inl TypeError)"

definition dt_gt :: "datetime \<Rightarrow> datetime \<Rightarrow> py_error + bool" where
  "dt_gt a b = (if comparable a b then Inr (utc_instant b < utc_instant a) else Inl TypeError)"

text \<open>\<^verbatim>\<open>a - b\<close> of two datetimes: the \<^verbatim>\<open>timedelta\<close>, in microseconds.\<close>

definition dt_diff :: "datetime \<Rightarrow> datetime \<Rightarrow> py_error + int" where
  "dt_diff a b = (if comparable a b then Inr (utc_instant a - utc_instant b) else Inl TypeError)"

text \<open>
  \<^verbatim>\<open>d - timedelta(seconds=s)\<close>: the \<^verbatim>\<open>timedelta\<close> constructor accepts at most
  999999999 days either way, and the result must lie in the years 1 to 9999.
\<close>

definition minus_seconds :: "datetime \<Rightarrow> int \<Rightarrow> py_error + datetime" where
  "minus_seconds d s =
     (if s < - 86399999913600 \<or> 86400000000000 \<le> s then Inl OverflowError
      else let w = wall d - s * 1000000
           in if MIN_WALL \<le> w \<and> w \<le> MAX_WALL then Inr (d\<lparr>wall := w\<rparr>)
              else Inl OverflowError)"

definition hour :: "datetime \<Rightarrow> int" where
  "hour d = (wall d div 3600000000) mod 24"

definition weekday :: "datetime \<Rightarrow> int" where
  "weekday d = (wall d div 86400000000 + 3) mod 7"

subsection \<open>\<^verbatim>\<open>TransactionWindow\<close>\<close>

record TransactionWindow =
  timestamps :: "datetime list"
  amounts :: "real list"

definition new_window :: TransactionWindow where
  "new_window = \<lparr>timestamps = [], amounts = []\<rparr>"

definition add_transaction :: "TransactionWindow \<Rightarrow> datetime \<Rightarrow> real \<Rightarrow> TransactionWindow" where
  "add_transaction w ts a = w\<lparr>timestamps := timestamps w @ [ts], amounts := amounts w @ [a]\<rparr>"

text \<open>
  \<^verbatim>\<open>[i for i, ts in enumerate(self.timestamps) if ts >= cutoff]\<close>, counting from \<open>i\<close>.
\<close>

fun valid_indices :: "datetime \<Rightarrow> nat \<Rightarrow> datetime list \<Rightarrow> py_error + nat list" where
  "valid_indices cutoff i [] = Inr []"
| "valid_indices cutoff i (ts # tss) =
     (case dt_ge ts cutoff of
        Inl e \<Rightarrow> Inl e
      | Inr keep \<Rightarrow>
          (case valid_indices cutoff (Suc i) tss of
             Inl e \<Rightarrow> Inl e
           | Inr js \<Rightarrow> Inr (if keep then i # js else js)))"

text \<open>\<^verbatim>\<open>[xs[i] for i in js]\<close>; an index out of range raises.\<close>

fun pick :: "'a list \<Rightarrow> nat list \<Rightarrow> py_error + 'a list" where
  "pick xs [] = Inr []"
| "pick xs (j # js) =
     (if j < length xs
      then (case pick xs js of Inl e \<Rightarrow> Inl e | Inr ys \<Rightarrow> Inr (xs ! j # ys))
      else Inl IndexError)"

definition cleanup :: "TransactionWindow \<Rightarrow> int \<Rightarrow> datetime \<Rightarrow> py_error option \<times> TransactionWindow" where
  "cleanup w window_seconds current_time =
     (case minus_seconds current_time window_seconds of
        Inl e \<Rightarrow> (Some e, w)
      | Inr cutoff \<Rightarrow>
          (case valid_indices cutoff 0 (timestamps w) of
             Inl e \<Rightarrow> (Some e, w)
           | Inr js \<Rightarrow>
               (case pick (timestamps w) js of
                  Inl e \<Rightarrow> (Some e, w)
                | Inr ts' \<Rightarrow>
                    (case pick (amounts w) js of
                       Inl e \<Rightarrow> (Some e, w\<lparr>timestamps := ts'\<rparr>)
                     | Inr am' \<Rightarrow> (None, w\<lparr>timestamps := ts', amounts := am'\<rparr>)))))"

definition get_count :: "TransactionWindow \<Rightarrow> int" where
  "get_count w = int (length (timestamps w))"

definition get_total_amount :: "TransactionWindow \<Rightarrow> real" where
  "get_total_amount w = (if amounts w \<noteq> [] then sum_list (amounts w) else 0)"

definition get_mean_amount :: "TransactionWindow \<Rightarrow> real" where
  "get_mean_amount w =
     (if amounts w \<noteq> [] then sum_list (amounts w) / real (length (amounts w)) else 0)"

text \<open>The windows the program can hold: made empty, then only added to and cleaned.\<close>

inductive window_reachable :: "TransactionWindow \<Rightarrow> bool" where
  fresh: "window_reachable new_window"
| added: "window_reachable w \<Longrightarrow> window_reachable (add_transaction w ts a)"
| cleaned: "window_reachable w \<Longrightarrow> cleanup w ws ct = (r, w') \<Longrightarrow> window_reachable w'"

text \<open>The retained (timestamp, amount) pairs of a window.\<close>

definition entries :: "TransactionWindow \<Rightarrow> (datetime \<times> real) list" where
  "entries w = zip (timestamps w) (amounts w)"

subsection \<open>Settings, transactions, features and alerts\<close>

record Settings =
  kafka_transactions_topic :: string
  kafka_alerts_topic :: string
  kafka_dlq_topic :: string
  velocity_window_seconds :: int
  velocity_threshold :: int
  fraud_score_threshold :: real

text \<open>The defaults of \<^verbatim>\<open>consumer/config.py\<close>.\<close>

definition default_settings :: Settings where
  "default_settings =
     \<lparr>kafka_transactions_topic = ''transactions'', kafka_alerts_topic = ''fraud_alerts'',
      kafka_dlq_topic = ''dead_letter_queue'', velocity_window_seconds = 60,
      velocity_threshold = 5, fraud_score_threshold = 0.7\<rparr>"

record Transaction =
  transaction_id :: string
  card_id :: string
  amount :: real
  timestamp :: datetime
  location :: string
  merchant_category :: string

record TransactionFeatures =
  amount_normalized :: real
  hour_of_day :: int
  day_of_week :: int
  is_weekend :: bool
  merchant_category_encoded :: int
  velocity_count :: int
  amount_deviation :: real
  location_risk :: real

text \<open>
  The \<^verbatim>\<open>Field\<close> bounds of \<^verbatim>\<open>TransactionFeatures\<close> in \<^verbatim>\<open>consumer/models.py\<close>:
  constructing a value outside them raises.
\<close>

definition valid_features :: "TransactionFeatures \<Rightarrow> bool" where
  "valid_features f =
     (0 \<le> hour_of_day f \<and> hour_of_day f \<le> 23 \<and> 0 \<le> day_of_week f \<and> day_of_week f \<le> 6 \<and>
      0 \<le> velocity_count f \<and> 0 \<le> location_risk f \<and> location_risk f \<le> 1)"

text \<open>
  The clauses of \<^verbatim>\<open>fraud_reason\<close>, before they are rendered and joined by \<^verbatim>\<open>"; "\<close>.
\<close>

datatype reason =
    VelocityViolation int
  | UnusualAmount real
  | HighRiskLocation
  | SuspiciousTime
  | HighConfidence
  | MultipleRiskFactors

datatype risk = LOW | MEDIUM | HIGH | CRITICAL

text \<open>
  A \<^verbatim>\<open>FraudAlert\<close> repeats the six fields of the transaction and adds its own;
  \<^verbatim>\<open>detected_at\<close>, a clock reading, is left out.
\<close>

record FraudAlert = Transaction +
  fraud_score :: real
  fraud_reason :: "reason list"
  risk_level :: risk
  velocity_triggered :: bool
  alert_velocity_count :: int
  latency_ms :: real

subsection \<open>\<^verbatim>\<open>FraudDetector\<close>\<close>

text \<open>
  The loaded model, by the capability \<^verbatim>\<open>_predict\<close> finds first:
  \<^verbatim>\<open>predict_proba\<close>, else \<^verbatim>\<open>decision_function\<close>, else \<^verbatim>\<open>predict\<close>. Each is
  applied to the feature row and returns its first row, or raises.
\<close>

datatype ml_model =
    PredictProba "real list \<Rightarrow> py_error + real list"
  | DecisionFunction "real list \<Rightarrow> py_error + real"
  | Predict "real list \<Rightarrow> py_error + int"

record FraudDetector =
  settings :: Settings
  model :: "ml_model option"
  scaler :: "(real list \<Rightarrow> py_error + real list) option"
  velocity_windows :: "(string \<times> TransactionWindow) list"
  transactions_processed :: int
  alerts_generated :: int
  velocity_violations :: int

text \<open>\<^verbatim>\<open>FraudDetector()\<close> followed by \<^verbatim>\<open>_initialize_fallback_model()\<close>.\<close>

definition fallback_detector :: "Settings \<Rightarrow> FraudDetector" where
  "fallback_detector s =
     \<lparr>settings = s, model = None, scaler = None, velocity_windows = [],
      transactions_processed = 0, alerts_generated = 0, velocity_violations = 0\<rparr>"

definition MERCHANT_CATEGORIES :: "(string \<times> int) list" where
  "MERCHANT_CATEGORIES =
     [(''grocery'', 0), (''gas_station'', 1), (''restaurant'', 2), (''online'', 3),
      (''retail'', 4), (''travel'', 5), (''entertainment'', 6), (''healthcare'', 7),
      (''education'', 8), (''utilities'', 9), (''other'', 10)]"

definition HIGH_RISK_LOCATIONS :: "string list" where
  "HIGH_RISK_LOCATIONS = [''unknown'', ''vpn'', ''tor'', ''proxy'']"

text \<open>\<^verbatim>\<open>str.lower()\<close> on ASCII text.\<close>

definition lower_char :: "char \<Rightarrow> char" where
  "lower_char c =
     (case map_of (zip ''ABCDEFGHIJKLMNOPQRSTUVWXYZ'' ''abcdefghijklmnopqrstuvwxyz'') c of
        None \<Rightarrow> c
      | Some l \<Rightarrow> l)"

definition lower :: "string \<Rightarrow> string" where
  "lower s = map lower_char s"

text \<open>The window of a card; the \<^verbatim>\<open>defaultdict\<close> makes an empty one on first access.\<close>

definition window_of :: "FraudDetector \<Rightarrow> string \<Rightarrow> TransactionWindow" where
  "window_of d cid = (case map_of (velocity_windows d) cid of None \<Rightarrow> new_window | Some w \<Rightarrow> w)"

definition set_window :: "FraudDetector \<Rightarrow> string \<Rightarrow> TransactionWindow \<Rightarrow> FraudDetector" where
  "set_window d cid w = d\<lparr>velocity_windows := AList.update cid w (velocity_windows d)\<rparr>"

definition check_velocity ::
  "FraudDetector \<Rightarrow> string \<Rightarrow> datetime \<Rightarrow> real \<Rightarrow> (py_error + bool \<times> int) \<times> FraudDetector" where
  "check_velocity d cid ts a =
     (let window = window_of d cid;
          (raised, cleaned) = cleanup window (velocity_window_seconds (settings d)) ts
      in case raised of
           Some e \<Rightarrow> (Inl e, set_window d cid cleaned)
         | None \<Rightarrow>
             (let window' = add_transaction cleaned ts a;
                  count = get_count window';
                  triggered = (count > velocity_threshold (settings d))
              in (Inr (triggered, count), set_window d cid window')))"

definition engineer_features ::
  "FraudDetector \<Rightarrow> Transaction \<Rightarrow> int \<Rightarrow> py_error + TransactionFeatures" where
  "engineer_features d t count =
     (let hr = hour (timestamp t);
          dow = weekday (timestamp t);
          weekend = (dow \<ge> 5);
          normalized = min (amount t / 10000) 1;
          encoded = (case map_of MERCHANT_CATEGORIES (lower (merchant_category t)) of
                       Some n \<Rightarrow> n | None \<Rightarrow> 10);
          location_lower = lower (location t);
          risk = (if \<exists>r \<in> set HIGH_RISK_LOCATIONS. sublist r location_lower then 0.8 else 0.2);
          deviation =
            (case map_of (velocity_windows d) (card_id t) of
               None \<Rightarrow> 0
             | Some window \<Rightarrow>
                 if get_count window > 1
                 then (let mean_amount = get_mean_amount window
                       in if mean_amount > 0 then \<bar>amount t - mean_amount\<bar> / mean_amount else 0)
                 else 0);
          f = \<lparr>amount_normalized = normalized, hour_of_day = hr, day_of_week = dow,
               is_weekend = weekend, merchant_category_encoded = encoded,
               velocity_count = count, amount_deviation = min deviation 5,
               location_risk = risk\<rparr>
      in if valid_features f then Inr f else Inl ValidationError)"

definition rule_based_score :: "TransactionFeatures \<Rightarrow> real" where
  "rule_based_score f =
     (let score = 0.1;
          score = (if velocity_count f > 3 then score + 0.3
                   else if velocity_count f > 5 then score + 0.5 else score);
          score = (if 2 \<le> hour_of_day f \<and> hour_of_day f \<le> 5 then score + 0.15 else score);
          score = (if amount_deviation f > 2 then score + 0.2 else score);
          score = score + location_risk f * 0.2;
          score = (if amount_normalized f > 0.5 then score + 0.1 else score)
      in min score 1)"

definition clip01 :: "real \<Rightarrow> real" where
  "clip01 x = min (max x 0) 1"

definition feature_vector :: "TransactionFeatures \<Rightarrow> real list" where
  "feature_vector f =
     [amount_normalized f, real_of_int (hour_of_day f) / 23, real_of_int (day_of_week f) / 6,
      (if is_weekend f then 1 else 0), real_of_int (merchant_category_encoded f) / 10,
      min (real_of_int (velocity_count f) / 10) 1, min (amount_deviation f) 1, location_risk f]"

definition predict :: "FraudDetector \<Rightarrow> TransactionFeatures \<Rightarrow> real" where
  "predict d f =
     (case model d of
        None \<Rightarrow> rule_based_score f
      | Some m \<Rightarrow>
          (case (case scaler d of None \<Rightarrow> Inr (feature_vector f) | Some tr \<Rightarrow> tr (feature_vector f)) of
             Inl e \<Rightarrow> rule_based_score f
           | Inr v \<Rightarrow>
               (case m of
                  PredictProba pp \<Rightarrow>
                    (case pp v of
                       Inl e \<Rightarrow> rule_based_score f
                     | Inr proba \<Rightarrow>
                         if length proba > 1 then clip01 (proba ! 1)
                         else (case proba of [] \<Rightarrow> rule_based_score f | p # _ \<Rightarrow> clip01 p))
                | DecisionFunction df \<Rightarrow>
                    (case df v of
                       Inl e \<Rightarrow> rule_based_score f
                     | Inr s \<Rightarrow> clip01 (1 / (1 + exp s)))
                | Predict pr \<Rightarrow>
                    (case pr v of
                       Inl e \<Rightarrow> rule_based_score f
                     | Inr label \<Rightarrow> clip01 (if label = 1 then 0.9 else 0.1)))))"

definition determine_fraud_reason ::
  "real \<Rightarrow> bool \<Rightarrow> int \<Rightarrow> TransactionFeatures \<Rightarrow> reason list" where
  "determine_fraud_reason score triggered count f =
     (let reasons = (if triggered then [VelocityViolation count] else []);
          reasons = (if amount_deviation f > 2 then reasons @ [UnusualAmount (amount_deviation f)]
                     else reasons);
          reasons = (if location_risk f > 0.5 then reasons @ [HighRiskLocation] else reasons);
          reasons = (if 2 \<le> hour_of_day f \<and> hour_of_day f \<le> 5 then reasons @ [SuspiciousTime]
                     else reasons);
          reasons = (if score \<ge> 0.8 \<and> reasons = [] then reasons @ [HighConfidence] else reasons)
      in if reasons \<noteq> [] then reasons else [MultipleRiskFactors])"

definition get_risk_level :: "real \<Rightarrow> risk" where
  "get_risk_level score =
     (if score \<ge> 0.9 then CRITICAL else if score \<ge> 0.75 then HIGH
      else if score \<ge> 0.5 then MEDIUM else LOW)"

text \<open>
  \<^verbatim>\<open>process_transaction\<close>; \<open>clock_start\<close> and \<open>clock_end\<close> are the two readings of
  \<^verbatim>\<open>datetime.utcnow()\<close>, in microseconds. Constructing the \<^verbatim>\<open>FraudAlert\<close> raises
  when \<^verbatim>\<open>fraud_score\<close> is outside \<open>[0, 1]\<close> (its \<^verbatim>\<open>Field\<close> bounds).
\<close>

definition process_transaction ::
  "FraudDetector \<Rightarrow> Transaction \<Rightarrow> int \<Rightarrow> int \<Rightarrow> (py_error + FraudAlert option) \<times> FraudDetector" where
  "process_transaction d t clock_start clock_end =
     (case check_velocity d (card_id t) (timestamp t) (amount t) of
        (Inl e, d1) \<Rightarrow> (Inl e, d1)
      | (Inr (triggered, count), d1) \<Rightarrow>
          (case engineer_features d1 t count of
             Inl e \<Rightarrow> (Inl e, d1)
           | Inr features \<Rightarrow>
               (let score = predict d1 features;
                    d2 = d1\<lparr>transactions_processed := transactions_processed d1 + 1\<rparr>
                in if score \<ge> fraud_score_threshold (settings d2) \<or> triggered
                   then (let d3 = (if triggered
                                   then d2\<lparr>velocity_violations := velocity_violations d2 + 1\<rparr>
                                   else d2);
                             latency = real_of_int (clock_end - clock_start) / 1000;
                             why = determine_fraud_reason score triggered count features;
                             final_score = (if triggered then max score 0.85 else score)
                         in if 0 \<le> final_score \<and> final_score \<le> 1
                            then (Inr (Some (Transaction.extend t
                                     (FraudAlert.fields final_score why (get_risk_level final_score)
                                        triggered count latency))),
                                  d3\<lparr>alerts_generated := alerts_generated d3 + 1\<rparr>)
                            else (Inl ValidationError, d3))
                   else (Inr None, d2))))"

text \<open>\<^verbatim>\<open>max(window.timestamps)\<close>, from the first element on.\<close>

fun max_from :: "datetime \<Rightarrow> datetime list \<Rightarrow> py_error + datetime" where
  "max_from m [] = Inr m"
| "max_from m (x # xs) =
     (case dt_gt x m of Inl e \<Rightarrow> Inl e | Inr b \<Rightarrow> max_from (if b then x else m) xs)"

definition STALE_THRESHOLD :: int where
  "STALE_THRESHOLD = 5 * 60 * 1000000"

text \<open>The first loop of \<^verbatim>\<open>cleanup_old_windows\<close>: the cards to remove.\<close>

fun cards_to_remove :: "datetime \<Rightarrow> (string \<times> TransactionWindow) list \<Rightarrow> py_error + string list" where
  "cards_to_remove now [] = Inr []"
| "cards_to_remove now ((cid, w) # rest) =
     (case timestamps w of
        [] \<Rightarrow> cards_to_remove now rest
      | x # xs \<Rightarrow>
          (case max_from x xs of
             Inl e \<Rightarrow> Inl e
           | Inr latest \<Rightarrow>
               (case dt_diff now latest of
                  Inl e \<Rightarrow> Inl e
                | Inr age \<Rightarrow>
                    (case cards_to_remove now rest of
                       Inl e \<Rightarrow> Inl e
                     | Inr cs \<Rightarrow> Inr (if age > STALE_THRESHOLD then cid # cs else cs)))))"

text \<open>
  \<^verbatim>\<open>cleanup_old_windows\<close>; \<open>now\<close> is the wall-clock reading of \<^verbatim>\<open>datetime.utcnow()\<close>,
  a naive value.
\<close>

definition cleanup_old_windows :: "FraudDetector \<Rightarrow> int \<Rightarrow> py_error option \<times> FraudDetector" where
  "cleanup_old_windows d now =
     (case cards_to_remove \<lparr>wall = now, utcoffset = None\<rparr> (velocity_windows d) of
        Inl e \<Rightarrow> (Some e, d)
      | Inr cs \<Rightarrow> (None, d\<lparr>velocity_windows := fold AList.delete cs (velocity_windows d)\<rparr>))"

text \<open>
  The test of \<^verbatim>\<open>cleanup_old_windows\<close> on a window whose timestamps are naive: it holds
  an entry and its latest one is more than five minutes before \<open>now\<close>. \<open>all_naive\<close>
  says that every stored timestamp is naive.
\<close>

definition stale :: "int \<Rightarrow> TransactionWindow \<Rightarrow> bool" where
  "stale now w =
     (timestamps w \<noteq> [] \<and> now - Max (wall ` set (timestamps w)) > STALE_THRESHOLD)"

definition all_naive :: "(string \<times> TransactionWindow) list \<Rightarrow> bool" where
  "all_naive ws = (\<forall>(c, w) \<in> set ws. \<forall>ts \<in> set (timestamps w). utcoffset ts = None)"

text \<open>
  The features \<^verbatim>\<open>process_transaction\<close> builds: its steps 1 and 2.
\<close>

definition built_features :: "FraudDetector \<Rightarrow> Transaction \<Rightarrow> py_error + TransactionFeatures" where
  "built_features d t =
     (case check_velocity d (card_id t) (timestamp t) (amount t) of
        (Inl e, d1) \<Rightarrow> Inl e
      | (Inr (triggered, count), d1) \<Rightarrow> engineer_features d1 t count)"

text \<open>
  A run of \<^verbatim>\<open>_check_velocity\<close> calls for one card, one per observation, stopping at
  the first that raises.
\<close>

fun observe_all ::
  "FraudDetector \<Rightarrow> string \<Rightarrow> (datetime \<times> real) list \<Rightarrow> py_error option \<times> FraudDetector" where
  "observe_all d cid [] = (None, d)"
| "observe_all d cid ((ts, a) # rest) =
     (case check_velocity d cid ts a of
        (Inl e, d') \<Rightarrow> (Some e, d')
      | (Inr r, d') \<Rightarrow> observe_all d' cid rest)"

text \<open>
  What a run of observations needs in order to return. A window is ready for timestamps
  of one kind (aware or naive) when its two lists are equally long and its timestamps
  are all of that kind: a naive and an aware \<^verbatim>\<open>datetime\<close> do not compare. A timestamp
  can be observed with a window of \<open>W\<close> seconds when it is of that kind and both it and
  the cutoff \<open>W\<close> seconds before it lie in the years 1 to 9999.
\<close>

definition window_ready :: "bool \<Rightarrow> TransactionWindow \<Rightarrow> bool" where
  "window_ready aware w =
     (length (timestamps w) = length (amounts w) \<and>
      (\<forall>e \<in> set (timestamps w). (utcoffset e \<noteq> None) = aware))"

definition observable :: "int \<Rightarrow> bool \<Rightarrow> datetime \<Rightarrow> bool" where
  "observable W aware ts =
     ((utcoffset ts \<noteq> None) = aware \<and> MIN_WALL + W * 1000000 \<le> wall ts \<and> wall ts \<le> MAX_WALL)"

subsection \<open>The stream engine: \<^verbatim>\<open>consumer/main.py\<close>\<close>






















subsection \<open>The specification's formulas\<close>

text \<open>
  The rule-based score as the specification words it: the two velocity bonuses both
  apply above 5.
\<close>

definition spec_rule_based_score :: "TransactionFeatures \<Rightarrow> real" where
  "spec_rule_based_score f =
     min (0.1
          + (if velocity_count f > 3 then 0.3 else 0)
          + (if velocity_count f > 5 then 0.5 else 0)
          + (if 2 \<le> hour_of_day f \<and> hour_of_day f \<le> 5 then 0.15 else 0)
          + (if amount_deviation f > 2 then 0.2 else 0)
          + 0.2 * location_risk f
          + (if amount_normalized f > 0.5 then 0.1 else 0)) 1"

text \<open>
  The amount deviation as the specification words it: from the mean of the card's window
  as it is before the current event is observed, absent for a card without a window.
\<close>

definition prior_mean :: "FraudDetector \<Rightarrow> string \<Rightarrow> real option" where
  "prior_mean d cid = map_option get_mean_amount (map_of (velocity_windows d) cid)"

definition spec_amount_deviation :: "real option \<Rightarrow> real \<Rightarrow> real" where
  "spec_amount_deviation pm a =
     (case pm of None \<Rightarrow> 0 | Some m \<Rightarrow> if m \<le> 0 then 0 else min (\<bar>a - m\<bar> / m) 5)"

subsection \<open>Example inputs\<close>

text \<open>
  The instant \<open>at_second n\<close> is \<open>n\<close> seconds after 2025-01-03T14:30:00Z, as the producer
  sends it (aware, UTC). \<open>burst_detector\<close> is the fallback detector after five purchases
  on card \<open>X\<close>, one per second.
\<close>

abbreviation at_second :: "int \<Rightarrow> datetime" where
  "at_second n \<equiv> \<lparr>wall = 1735914600000000 + n * 1000000, utcoffset = Some 0\<rparr>"

abbreviation purchase :: "real \<Rightarrow> datetime \<Rightarrow> Transaction" where
  "purchase a ts \<equiv>
     \<lparr>transaction_id = ''5f0c7a52-3c1e-4b5e-9a43-0d6b8a2f1c11'', card_id = ''X'', amount = a,
      timestamp = ts, location = ''Austin, TX'', merchant_category = ''grocery''\<rparr>"

abbreviation burst_detector :: FraudDetector where
  "burst_detector \<equiv> (fallback_detector default_settings)
     \<lparr>velocity_windows :=
        [(''X'', \<lparr>timestamps = [at_second 0, at_second 1, at_second 2, at_second 3, at_second 4],
                 amounts = [10, 20, 30, 40, 50]\<rparr>)],
      transactions_processed := 5\<rparr>"

text \<open>
  \<open>busy_features\<close> are the features of a sixth purchase in a burst, and
  \<open>second_purchase_detector\<close> is the fallback detector after one purchase of 10 on card
  \<open>X\<close>.
\<close>

abbreviation busy_features :: TransactionFeatures where
  "busy_features \<equiv>
     \<lparr>amount_normalized = 0.006, hour_of_day = 14, day_of_week = 4, is_weekend = False,
      merchant_category_encoded = 0, velocity_count = 6, amount_deviation = 0,
      location_risk = 0.2\<rparr>"

abbreviation second_purchase_detector :: FraudDetector where
  "second_purchase_detector \<equiv> (fallback_detector default_settings)
     \<lparr>velocity_windows := [(''X'', \<lparr>timestamps = [at_second 0], amounts = [10]\<rparr>)],
      transactions_processed := 1\<rparr>"




text \<open>
  \<open>idle_detector\<close> is the fallback detector after one purchase on card \<open>X\<close> at
  2025-01-03T14:30:00Z.
\<close>

abbreviation idle_detector :: FraudDetector where
  "idle_detector \<equiv> (fallback_detector default_settings)
     \<lparr>velocity_windows := [(''X'', \<lparr>timestamps = [at_second 0], amounts = [25]\<rparr>)],
      transactions_processed := 1\<rparr>"







text \<open>
  \<open>two_purchases\<close> are purchases on card \<open>X\<close> at 14:30:00 and 14:30:01, and
  \<open>window_detector tss ams\<close> is the fallback detector whose only window, for card \<open>X\<close>,
  holds the timestamps \<open>tss\<close> and the amounts \<open>ams\<close>.
\<close>

abbreviation two_purchases :: "(datetime \<times> real) list" where
  "two_purchases \<equiv> [(at_second 0, 10), (at_second 1, 20)]"

abbreviation window_detector :: "datetime list \<Rightarrow> real list \<Rightarrow> FraudDetector" where
  "window_detector tss ams \<equiv> (fallback_detector default_settings)
     \<lparr>velocity_windows := [(''X'', \<lparr>timestamps = tss, amounts = ams\<rparr>)]\<rparr>"

section \<open>Properties\<close>

subsection \<open>The sliding window\<close>

lemma pick_valid_indices:
  "valid_indices cutoff i tss = Inr js \<Longrightarrow> length pre = i \<Longrightarrow> length xs = length tss \<Longrightarrow>
   pick (pre @ xs) js = Inr (map snd (filter (\<lambda>(ts, x). dt_ge ts cutoff = Inr True) (zip tss xs)))"
proof (induction tss arbitrary: i js pre xs)
  case Nil
  then show ?case by simp
next
  case (Cons t tss)
  from Cons.prems(3) obtain x xs' where xs: "xs = x # xs'" and len: "length xs' = length tss"
    by (cases xs) auto
  from Cons.prems(1) obtain keep js' where
    keep: "dt_ge t cutoff = Inr keep" and
    rest: "valid_indices cutoff (Suc i) tss = Inr js'" and
    js: "js = (if keep then i # js' else js')"
    by (auto split: sum.splits)
  have "length (pre @ [x]) = Suc i" using Cons.prems(2) by simp
  from Cons.IH[OF rest this len]
  have tail: "pick (pre @ x # xs') js' =
      Inr (map snd (filter (\<lambda>(ts, x). dt_ge ts cutoff = Inr True) (zip tss xs')))"
    by simp
  have here: "(pre @ x # xs') ! i = x" "i < length (pre @ x # xs')"
    using Cons.prems(2) by (simp_all add: nth_append)
  show ?case
    using keep js tail here by (simp add: xs)
qed

lemma zip_filter_fst:
  "length tss = length xs \<Longrightarrow>
   zip (filter P tss) (map snd (filter (\<lambda>(ts, x). P ts) (zip tss xs))) =
   filter (\<lambda>(ts, x). P ts) (zip tss xs)"
  by (induction tss xs rule: list_induct2) auto

lemma length_filter_fst:
  "length tss = length xs \<Longrightarrow>
   length (filter P tss) = length (filter (\<lambda>(ts, x). P ts) (zip tss xs))"
  by (induction tss xs rule: list_induct2) auto

lemma filter_as_zip:
  "map snd (filter (\<lambda>(ts, x). P ts) (zip tss tss)) = filter P tss"
  by (induction tss) auto

lemma cleanup_aligned:
  assumes al: "length (timestamps w) = length (amounts w)"
      and cl: "cleanup w ws ct = (r, w')"
  shows "length (timestamps w') = length (amounts w') \<and>
         (case r of
            Some e \<Rightarrow> w' = w
          | None \<Rightarrow> \<exists>cutoff. minus_seconds ct ws = Inr cutoff \<and>
               entries w' = filter (\<lambda>(ts, a). dt_ge ts cutoff = Inr True) (entries w))"
proof (cases "minus_seconds ct ws")
  case (Inl e)
  with cl al show ?thesis by (auto simp: cleanup_def)
next
  case (Inr cutoff)
  show ?thesis
  proof (cases "valid_indices cutoff 0 (timestamps w)")
    case (Inl e)
    with cl al Inr show ?thesis by (auto simp: cleanup_def)
  next
    case js: (Inr js)
    have pt: "pick (timestamps w) js = Inr (filter (\<lambda>ts. dt_ge ts cutoff = Inr True) (timestamps w))"
      using pick_valid_indices[OF js, of "[]" "timestamps w"] by (simp add: filter_as_zip)
    have pa: "pick (amounts w) js =
        Inr (map snd (filter (\<lambda>(ts, x). dt_ge ts cutoff = Inr True) (zip (timestamps w) (amounts w))))"
      using pick_valid_indices[OF js, of "[]" "amounts w"] al by simp
    from cl Inr js pt pa have r: "r = None"
      and w': "w' = w\<lparr>timestamps := filter (\<lambda>ts. dt_ge ts cutoff = Inr True) (timestamps w),
           amounts := map snd (filter (\<lambda>(ts, x). dt_ge ts cutoff = Inr True) (zip (timestamps w) (amounts w)))\<rparr>"
      by (auto simp: cleanup_def)
    have e: "entries w' = filter (\<lambda>(ts, a). dt_ge ts cutoff = Inr True) (entries w)"
      unfolding entries_def w' using zip_filter_fst[OF al, of "\<lambda>ts. dt_ge ts cutoff = Inr True"] by simp
    have "length (timestamps w') = length (amounts w')"
      unfolding w' using length_filter_fst[OF al, of "\<lambda>ts. dt_ge ts cutoff = Inr True"] by simp
    with r e Inr show ?thesis by simp
  qed
qed


lemma reachable_aligned: "window_reachable w \<Longrightarrow> length (timestamps w) = length (amounts w)"
proof (induction rule: window_reachable.induct)
  case fresh
  show ?case by (simp add: new_window_def)
next
  case (added w ts a)
  then show ?case by (simp add: add_transaction_def)
next
  case (cleaned w ws ct r w')
  from cleanup_aligned[OF cleaned.IH cleaned.hyps(2)] show ?case by simp
qed

lemma entries_add:
  "length (timestamps w) = length (amounts w) \<Longrightarrow>
   entries (add_transaction w ts a) = entries w @ [(ts, a)]"
  by (simp add: entries_def add_transaction_def)

lemma count_mean_entries:
  assumes "length (timestamps w) = length (amounts w)"
  shows "get_count w = int (length (entries w)) \<and>
     get_mean_amount w =
       (if entries w = [] then 0
        else sum_list (map snd (entries w)) / real (length (entries w)))"
proof -
  have "map snd (entries w) = amounts w" using assms by (simp add: entries_def)
  moreover have "length (entries w) = length (amounts w)" using assms by (simp add: entries_def)
  moreover have "(entries w = []) = (amounts w = [])" using assms by (auto simp: entries_def)
  ultimately show ?thesis using assms by (simp add: get_count_def get_mean_amount_def)
qed

text \<open>
  Claim C9. A window the program can hold has as many timestamps as amounts;
  \<^verbatim>\<open>add_transaction\<close> appends one pair, and \<^verbatim>\<open>cleanup\<close>, when it returns, keeps
  exactly the pairs whose timestamp is not before the cutoff, in their order (when it
  raises, the window is as it was). \<^verbatim>\<open>get_count\<close> and \<^verbatim>\<open>get_mean_amount\<close> are the
  number and the mean amount of the same retained pairs.
\<close>

theorem window_lists_aligned:
  assumes "window_reachable w"
  shows "length (timestamps w) = length (amounts w) \<and>
     get_count w = int (length (entries w)) \<and>
     get_mean_amount w =
       (if entries w = [] then 0
        else sum_list (map snd (entries w)) / real (length (entries w))) \<and>
     entries (add_transaction w ts a) = entries w @ [(ts, a)] \<and>
     (\<forall>ws ct r w'. cleanup w ws ct = (r, w') \<longrightarrow>
        length (timestamps w') = length (amounts w') \<and>
        (case r of
           Some e \<Rightarrow> w' = w
         | None \<Rightarrow> \<exists>cutoff. minus_seconds ct ws = Inr cutoff \<and>
              entries w' = filter (\<lambda>(ts, a). dt_ge ts cutoff = Inr True) (entries w)))"
proof -
  have al: "length (timestamps w) = length (amounts w)"
    using assms by (rule reachable_aligned)
  show ?thesis
    using al count_mean_entries[OF al] entries_add[OF al] cleanup_aligned[OF al]
    by blast
qed

theorem window_lists_aligned_witness:
  "window_reachable (add_transaction new_window \<lparr>wall = 0, utcoffset = None\<rparr> 10) \<and>
   length (timestamps (add_transaction new_window \<lparr>wall = 0, utcoffset = None\<rparr> 10)) =
   length (amounts (add_transaction new_window \<lparr>wall = 0, utcoffset = None\<rparr> 10)) \<and>
   get_count (add_transaction new_window \<lparr>wall = 0, utcoffset = None\<rparr> 10) = 1"
proof -
  have r: "window_reachable (add_transaction new_window \<lparr>wall = 0, utcoffset = None\<rparr> 10)"
    by (rule added, rule fresh)
  from window_lists_aligned[OF r] r show ?thesis
    by (simp add: entries_def add_transaction_def new_window_def)
qed

lemma cleanup_timestamps:
  assumes "cleanup w ws ct = (None, w')"
  shows "\<exists>cutoff. minus_seconds ct ws = Inr cutoff \<and>
     timestamps w' = filter (\<lambda>ts. dt_ge ts cutoff = Inr True) (timestamps w)"
proof -
  from assms obtain cutoff js where c: "minus_seconds ct ws = Inr cutoff"
    and js: "valid_indices cutoff 0 (timestamps w) = Inr js"
    by (auto simp: cleanup_def split: sum.splits)
  have "pick (timestamps w) js = Inr (filter (\<lambda>ts. dt_ge ts cutoff = Inr True) (timestamps w))"
    using pick_valid_indices[OF js, of "[]" "timestamps w"] by (simp add: filter_as_zip)
  with assms c js show ?thesis by (auto simp: cleanup_def split: sum.splits)
qed

lemma window_of_set_window: "window_of (set_window d cid w) cid = w"
  by (simp add: window_of_def set_window_def update_conv')

lemma check_velocity_ok:
  assumes "check_velocity d cid ts a = (Inr (triggered, count), d')"
  shows "\<exists>wc. cleanup (window_of d cid) (velocity_window_seconds (settings d)) ts = (None, wc) \<and>
     d' = set_window d cid (add_transaction wc ts a) \<and>
     count = get_count (add_transaction wc ts a) \<and>
     triggered = (count > velocity_threshold (settings d))"
  using assms
  by (auto simp: check_velocity_def Let_def split: prod.splits option.splits)

lemma minus_seconds_instant:
  "minus_seconds ts s = Inr cutoff \<Longrightarrow>
   utcoffset cutoff = utcoffset ts \<and> utc_instant cutoff = utc_instant ts - s * 1000000"
  by (auto simp: minus_seconds_def utc_instant_def Let_def split: if_splits option.splits)

lemma dt_ge_True: "(dt_ge e c = Inr True) = (comparable e c \<and> utc_instant c \<le> utc_instant e)"
  by (simp add: dt_ge_def)


lemma valid_indices_comparable:
  "valid_indices cutoff i tss = Inr js \<Longrightarrow> e \<in> set tss \<Longrightarrow> comparable e cutoff"
  by (induction tss arbitrary: i js) (auto simp: dt_ge_def split: sum.splits if_splits)

lemma settings_set_window: "settings (set_window d cid w) = settings d"
  by (simp add: set_window_def)

lemma check_velocity_settings:
  "check_velocity d cid ts a = (r, d') \<Longrightarrow> settings d' = settings d"
  by (auto simp: check_velocity_def Let_def settings_set_window split: prod.splits option.splits)

lemma observe_all_snoc:
  "observe_all d cid (obs @ [(ts, a)]) = (None, d') \<Longrightarrow>
   \<exists>dm r. observe_all d cid obs = (None, dm) \<and> settings dm = settings d \<and>
     check_velocity dm cid ts a = (Inr r, d')"
proof (induction obs arbitrary: d)
  case Nil
  then show ?case by (auto split: prod.splits sum.splits)
next
  case (Cons ob obs)
  obtain t x where ob: "ob = (t, x)" by (cases ob)
  from Cons.prems ob obtain r1 d1 where
    first: "check_velocity d cid t x = (Inr r1, d1)" and
    rest: "observe_all d1 cid (obs @ [(ts, a)]) = (None, d')"
    by (auto split: prod.splits sum.splits)
  from Cons.IH[OF rest] obtain dm r where
    "observe_all d1 cid obs = (None, dm)" "settings dm = settings d1"
    "check_velocity dm cid ts a = (Inr r, d')" by blast
  with first ob check_velocity_settings[OF first] show ?case by auto
qed

lemma check_velocity_bound:
  assumes cv: "check_velocity d cid ts a = (Inr r, d')"
      and w: "0 \<le> velocity_window_seconds (settings d)"
  shows "(\<forall>e \<in> set (timestamps (window_of d' cid)).
            utc_instant ts - velocity_window_seconds (settings d) * 1000000 \<le> utc_instant e) \<and>
         (\<forall>e \<in> set (timestamps (window_of d cid)).
            (e \<in> set (timestamps (window_of d' cid))) =
            (utc_instant ts - velocity_window_seconds (settings d) * 1000000 \<le> utc_instant e))"
proof -
  let ?W = "velocity_window_seconds (settings d)"
  obtain triggered count where r: "r = (triggered, count)" by (cases r)
  from check_velocity_ok[OF cv[unfolded r]] obtain wc where
    cl: "cleanup (window_of d cid) ?W ts = (None, wc)" and
    d': "d' = set_window d cid (add_transaction wc ts a)" by blast
  from cleanup_timestamps[OF cl] obtain cutoff where
    c: "minus_seconds ts ?W = Inr cutoff" and
    kept: "timestamps wc = filter (\<lambda>e. dt_ge e cutoff = Inr True) (timestamps (window_of d cid))"
    by blast
  have ci: "utc_instant cutoff = utc_instant ts - ?W * 1000000"
    using minus_seconds_instant[OF c] by simp
  have new: "timestamps (window_of d' cid) = timestamps wc @ [ts]"
    by (simp add: d' window_of_set_window add_transaction_def)
  have cmp: "\<forall>e \<in> set (timestamps (window_of d cid)). comparable e cutoff"
    using cl c valid_indices_comparable by (auto simp: cleanup_def split: sum.splits)
  show ?thesis
    using w cmp by (auto simp: new kept dt_ge_True ci)
qed

lemma valid_indices_returns:
  "\<forall>e \<in> set tss. comparable e cutoff \<Longrightarrow> \<exists>js. valid_indices cutoff i tss = Inr js"
proof (induction tss arbitrary: i)
  case Nil
  show ?case by simp
next
  case (Cons t tss)
  from Cons.prems have "\<forall>e \<in> set tss. comparable e cutoff" by simp
  from Cons.IH[OF this, of "Suc i"] obtain js where "valid_indices cutoff (Suc i) tss = Inr js" ..
  moreover from Cons.prems have "comparable t cutoff" by simp
  ultimately show ?case by (simp add: dt_ge_def)
qed

lemma minus_seconds_returns:
  assumes "0 \<le> W" "W < 86400000000000" "observable W aware ts"
  shows "\<exists>cutoff. minus_seconds ts W = Inr cutoff"
  using assms by (simp add: minus_seconds_def observable_def Let_def)

lemma cleanup_returns:
  assumes rd: "window_ready aware w"
      and ob: "(utcoffset ct \<noteq> None) = aware"
      and ms: "minus_seconds ct W = Inr cutoff"
  shows "\<exists>w'. cleanup w W ct = (None, w') \<and> window_ready aware w'"
proof -
  from rd have al: "length (timestamps w) = length (amounts w)"
    and aw: "\<forall>e \<in> set (timestamps w). (utcoffset e \<noteq> None) = aware"
    by (simp_all add: window_ready_def)
  have co: "utcoffset cutoff = utcoffset ct" using minus_seconds_instant[OF ms] by simp
  have "\<forall>e \<in> set (timestamps w). comparable e cutoff"
    using aw ob co by (auto simp: comparable_def)
  from valid_indices_returns[OF this, of 0] obtain js where
    js: "valid_indices cutoff 0 (timestamps w) = Inr js" ..
  have pt: "pick (timestamps w) js = Inr (filter (\<lambda>ts. dt_ge ts cutoff = Inr True) (timestamps w))"
    using pick_valid_indices[OF js, of "[]" "timestamps w"] by (simp add: filter_as_zip)
  have pa: "pick (amounts w) js =
      Inr (map snd (filter (\<lambda>(ts, x). dt_ge ts cutoff = Inr True) (zip (timestamps w) (amounts w))))"
    using pick_valid_indices[OF js, of "[]" "amounts w"] al by simp
  obtain r w' where cl: "cleanup w W ct = (r, w')" by (cases "cleanup w W ct")
  from cl ms js pt pa have r: "r = None" by (auto simp: cleanup_def)
  from cleanup_aligned[OF al cl] have al': "length (timestamps w') = length (amounts w')" by simp
  from cleanup_timestamps[OF cl[unfolded r]] have "set (timestamps w') \<subseteq> set (timestamps w)"
    by auto
  with aw al' have "window_ready aware w'" by (auto simp: window_ready_def)
  with cl r show ?thesis by simp
qed

lemma check_velocity_returns:
  assumes rd: "window_ready aware (window_of d cid)"
      and w: "0 \<le> velocity_window_seconds (settings d)"
             "velocity_window_seconds (settings d) < 86400000000000"
      and ob: "observable (velocity_window_seconds (settings d)) aware ts"
  shows "\<exists>r d'. check_velocity d cid ts a = (Inr r, d') \<and> window_ready aware (window_of d' cid)"
proof -
  from minus_seconds_returns[OF w ob] obtain cutoff where
    ms: "minus_seconds ts (velocity_window_seconds (settings d)) = Inr cutoff" ..
  from ob have aw: "(utcoffset ts \<noteq> None) = aware" by (simp add: observable_def)
  from cleanup_returns[OF rd aw ms] obtain wc where
    cl: "cleanup (window_of d cid) (velocity_window_seconds (settings d)) ts = (None, wc)" and
    rc: "window_ready aware wc" by blast
  have "window_ready aware (add_transaction wc ts a)"
    using rc aw by (auto simp: window_ready_def add_transaction_def)
  then show ?thesis
    using cl by (simp add: check_velocity_def Let_def window_of_set_window)
qed

lemma observe_all_returns:
  assumes "window_ready aware (window_of d cid)"
      and "0 \<le> velocity_window_seconds (settings d)"
          "velocity_window_seconds (settings d) < 86400000000000"
      and "\<forall>(t, x) \<in> set obs. observable (velocity_window_seconds (settings d)) aware t"
  shows "\<exists>d'. observe_all d cid obs = (None, d')"
  using assms
proof (induction obs arbitrary: d)
  case Nil
  show ?case by simp
next
  case (Cons ob obs)
  obtain t x where ob: "ob = (t, x)" by (cases ob)
  from Cons.prems(4) ob have here: "observable (velocity_window_seconds (settings d)) aware t"
    and rest: "\<forall>(t, x) \<in> set obs. observable (velocity_window_seconds (settings d)) aware t"
    by simp_all
  from check_velocity_returns[OF Cons.prems(1-3) here, of x] obtain r d1 where
    cv: "check_velocity d cid t x = (Inr r, d1)" and rd: "window_ready aware (window_of d1 cid)"
    by blast
  have s: "settings d1 = settings d" by (rule check_velocity_settings[OF cv])
  from Cons.IH[OF rd] Cons.prems(2,3) rest s obtain d' where "observe_all d1 cid obs = (None, d')"
    by auto
  with cv ob show ?case by simp
qed

lemma returned_run_bound:
  assumes run: "observe_all d cid (obs @ [(ts, a)]) = (None, d')"
      and w: "0 \<le> velocity_window_seconds (settings d)"
  shows "(\<forall>e \<in> set (timestamps (window_of d' cid)).
            utc_instant ts - velocity_window_seconds (settings d) * 1000000 \<le> utc_instant e) \<and>
         (\<exists>dm. observe_all d cid obs = (None, dm) \<and>
            (\<forall>e \<in> set (timestamps (window_of dm cid)).
               (e \<in> set (timestamps (window_of d' cid))) =
               (utc_instant ts - velocity_window_seconds (settings d) * 1000000 \<le> utc_instant e)))"
proof -
  from observe_all_snoc[OF run] obtain dm r where
    before: "observe_all d cid obs = (None, dm)" and
    same: "settings dm = settings d" and
    last: "check_velocity dm cid ts a = (Inr r, d')" by blast
  from w same have w': "0 \<le> velocity_window_seconds (settings dm)" by simp
  from check_velocity_bound[OF last w'] same before show ?thesis by auto
qed

text \<open>
  Claim C6. Take a card whose window is ready, a window length of \<open>W \<ge> 0\<close> seconds that
  \<^verbatim>\<open>timedelta\<close> accepts, and any sequence of observations for that card whose
  timestamps can be observed, ending with \<open>(ts, a)\<close>. Then every observation returns,
  and after the last one every timestamp in the card's window is at or after \<open>ts - W\<close>,
  and an entry held before the last observation is retained exactly when it is at or
  after \<open>ts - W\<close>: an earlier one is evicted, one exactly at \<open>ts - W\<close> is kept. No order
  of the timestamps is assumed.
\<close>

theorem window_time_bound:
  assumes w: "0 \<le> velocity_window_seconds (settings d)"
             "velocity_window_seconds (settings d) < 86400000000000"
      and rd: "window_ready aware (window_of d cid)"
      and ob: "\<forall>(t, x) \<in> set (obs @ [(ts, a)]).
                 observable (velocity_window_seconds (settings d)) aware t"
  shows "\<exists>dm d'. observe_all d cid obs = (None, dm) \<and>
           observe_all d cid (obs @ [(ts, a)]) = (None, d') \<and>
           (\<forall>e \<in> set (timestamps (window_of d' cid)).
              utc_instant ts - velocity_window_seconds (settings d) * 1000000 \<le> utc_instant e) \<and>
           (\<forall>e \<in> set (timestamps (window_of dm cid)).
              (e \<in> set (timestamps (window_of d' cid))) =
              (utc_instant ts - velocity_window_seconds (settings d) * 1000000 \<le> utc_instant e))"
proof -
  from observe_all_returns[OF rd w ob] obtain d' where
    run: "observe_all d cid (obs @ [(ts, a)]) = (None, d')" ..
  from returned_run_bound[OF run w(1)] run show ?thesis by blast
qed

theorem window_time_bound_witness:
  "0 \<le> velocity_window_seconds (settings (fallback_detector default_settings)) \<and>
   velocity_window_seconds (settings (fallback_detector default_settings)) < 86400000000000 \<and>
   window_ready True (window_of (fallback_detector default_settings) ''X'') \<and>
   list_all (\<lambda>(t, x). observable (velocity_window_seconds (settings (fallback_detector default_settings))) True t)
     (two_purchases @ [(at_second 61, 30)]) \<and>
   observe_all (fallback_detector default_settings) ''X'' two_purchases
     = (None, window_detector [at_second 0, at_second 1] [10, 20]) \<and>
   observe_all (fallback_detector default_settings) ''X'' (two_purchases @ [(at_second 61, 30)])
     = (None, window_detector [at_second 1, at_second 61] [20, 30]) \<and>
   list_all (\<lambda>e. utc_instant (at_second 61)
                   - velocity_window_seconds (settings (fallback_detector default_settings)) * 1000000
                 \<le> utc_instant e)
     (timestamps (window_of (window_detector [at_second 1, at_second 61] [20, 30]) ''X'')) \<and>
   list_all (\<lambda>e. (e \<in> set (timestamps (window_of (window_detector [at_second 1, at_second 61] [20, 30]) ''X''))) =
                 (utc_instant (at_second 61)
                   - velocity_window_seconds (settings (fallback_detector default_settings)) * 1000000
                 \<le> utc_instant e))
     (timestamps (window_of (window_detector [at_second 0, at_second 1] [10, 20]) ''X''))"
proof -
  let ?d = "fallback_detector default_settings"
  have w1: "0 \<le> velocity_window_seconds (settings ?d)"
    by (simp add: fallback_detector_def default_settings_def)
  have w2: "velocity_window_seconds (settings ?d) < 86400000000000"
    by (simp add: fallback_detector_def default_settings_def)
  have rd: "window_ready True (window_of ?d ''X'')"
    by (simp add: window_ready_def window_of_def fallback_detector_def new_window_def)
  have ob: "list_all (\<lambda>(t, x). observable (velocity_window_seconds (settings ?d)) True t)
     (two_purchases @ [(at_second 61, 30)])"
    by (simp add: observable_def fallback_detector_def default_settings_def MIN_WALL_def MAX_WALL_def)
  have mid: "observe_all ?d ''X'' two_purchases
     = (None, window_detector [at_second 0, at_second 1] [10, 20])"
    by (simp add: fallback_detector_def default_settings_def check_velocity_def window_of_def
        set_window_def new_window_def cleanup_def minus_seconds_def MIN_WALL_def MAX_WALL_def
        add_transaction_def get_count_def dt_ge_def comparable_def utc_instant_def Let_def)
  have fin: "observe_all ?d ''X'' (two_purchases @ [(at_second 61, 30)])
     = (None, window_detector [at_second 1, at_second 61] [20, 30])"
    by (simp add: fallback_detector_def default_settings_def check_velocity_def window_of_def
        set_window_def new_window_def cleanup_def minus_seconds_def MIN_WALL_def MAX_WALL_def
        add_transaction_def get_count_def dt_ge_def comparable_def utc_instant_def Let_def)
  from window_time_bound[OF w1 w2 rd ob[unfolded list_all_iff]]
  have b: "list_all (\<lambda>e. utc_instant (at_second 61)
                   - velocity_window_seconds (settings ?d) * 1000000 \<le> utc_instant e)
     (timestamps (window_of (window_detector [at_second 1, at_second 61] [20, 30]) ''X'')) \<and>
   list_all (\<lambda>e. (e \<in> set (timestamps (window_of (window_detector [at_second 1, at_second 61] [20, 30]) ''X''))) =
                 (utc_instant (at_second 61)
                   - velocity_window_seconds (settings ?d) * 1000000 \<le> utc_instant e))
     (timestamps (window_of (window_detector [at_second 0, at_second 1] [10, 20]) ''X''))"
    unfolding mid fin list_all_iff by blast
  show ?thesis
    by (rule conjI[OF w1 conjI[OF w2 conjI[OF rd conjI[OF ob conjI[OF mid conjI[OF fin b]]]]]])
qed

subsection \<open>Processing one transaction\<close>

lemma check_velocity_frame:
  "check_velocity d cid ts a = (r, d') \<Longrightarrow>
   settings d' = settings d \<and> model d' = model d \<and> scaler d' = scaler d \<and>
   transactions_processed d' = transactions_processed d \<and>
   alerts_generated d' = alerts_generated d \<and>
   velocity_violations d' = velocity_violations d"
  unfolding check_velocity_def Let_def set_window_def
  by (cases "cleanup (window_of d cid) (velocity_window_seconds (settings d)) ts")
     (auto split: option.splits)

lemma predict_cong:
  "model d' = model d \<Longrightarrow> scaler d' = scaler d \<Longrightarrow> predict d' f = predict d f"
  by (cases "model d") (simp_all add: predict_def)

lemma alert_fields:
  "fraud_score (Transaction.extend t (FraudAlert.fields s w r v c l)) = s"
  "velocity_triggered (Transaction.extend t (FraudAlert.fields s w r v c l)) = v"
  "alert_velocity_count (Transaction.extend t (FraudAlert.fields s w r v c l)) = c"
  "risk_level (Transaction.extend t (FraudAlert.fields s w r v c l)) = r"
  "latency_ms (Transaction.extend t (FraudAlert.fields s w r v c l)) = l"
  "fraud_reason (Transaction.extend t (FraudAlert.fields s w r v c l)) = w"
  "card_id (Transaction.extend t (FraudAlert.fields s w r v c l)) = card_id t"
  by (simp_all add: Transaction.extend_def FraudAlert.fields_def)


lemma pt_unfold:
  assumes cv: "check_velocity d (card_id t) (timestamp t) (amount t) = (Inr (triggered, count), d1)"
      and ef: "engineer_features d1 t count = Inr f"
  shows "process_transaction d t cs ce =
     (if predict d1 f \<ge> fraud_score_threshold (settings d1) \<or> triggered
      then (if 0 \<le> (if triggered then max (predict d1 f) 0.85 else predict d1 f) \<and>
               (if triggered then max (predict d1 f) 0.85 else predict d1 f) \<le> 1
            then (Inr (Some (Transaction.extend t
                    (FraudAlert.fields (if triggered then max (predict d1 f) 0.85 else predict d1 f)
                       (determine_fraud_reason (predict d1 f) triggered count f)
                       (get_risk_level (if triggered then max (predict d1 f) 0.85 else predict d1 f))
                       triggered count (real_of_int (ce - cs) / 1000)))),
                  d1\<lparr>transactions_processed := transactions_processed d1 + 1,
                     velocity_violations := velocity_violations d1 + (if triggered then 1 else 0),
                     alerts_generated := alerts_generated d1 + 1\<rparr>)
            else (Inl ValidationError,
                  d1\<lparr>transactions_processed := transactions_processed d1 + 1,
                     velocity_violations := velocity_violations d1 + (if triggered then 1 else 0)\<rparr>))
      else (Inr None, d1\<lparr>transactions_processed := transactions_processed d1 + 1\<rparr>))"
  unfolding process_transaction_def cv
  by (simp only: prod.case sum.case ef Let_def)
     (cases triggered; simp split del: if_split cong: if_cong)

lemma pt_raised_velocity:
  "check_velocity d (card_id t) (timestamp t) (amount t) = (Inl e, d1) \<Longrightarrow>
   process_transaction d t cs ce = (Inl e, d1)"
  unfolding process_transaction_def by (simp only: prod.case sum.case)

lemma pt_raised_features:
  "check_velocity d (card_id t) (timestamp t) (amount t) = (Inr (triggered, count), d1) \<Longrightarrow>
   engineer_features d1 t count = Inl e \<Longrightarrow>
   process_transaction d t cs ce = (Inl e, d1)"
  unfolding process_transaction_def by (simp only: prod.case sum.case)

lemma pt_returned_steps:
  assumes pt: "process_transaction d t cs ce = (Inr res, d')"
  shows "\<exists>triggered count d1 f.
     check_velocity d (card_id t) (timestamp t) (amount t) = (Inr (triggered, count), d1) \<and>
     engineer_features d1 t count = Inr f"
proof -
  obtain r1 d1 where cv0: "check_velocity d (card_id t) (timestamp t) (amount t) = (r1, d1)"
    by (cases "check_velocity d (card_id t) (timestamp t) (amount t)")
  show ?thesis
  proof (cases r1)
    case (Inl e)
    from pt_raised_velocity[OF cv0[unfolded Inl], of cs ce] pt have False by simp
    then show ?thesis ..
  next
    case (Inr tc)
    obtain triggered count where tc: "tc = (triggered, count)" by (cases tc)
    have cv: "check_velocity d (card_id t) (timestamp t) (amount t) = (Inr (triggered, count), d1)"
      using cv0 Inr tc by simp
    show ?thesis
    proof (cases "engineer_features d1 t count")
      case (Inl e)
      from pt_raised_features[OF cv Inl, of cs ce] pt have False by simp
      then show ?thesis ..
    next
      case (Inr f)
      with cv show ?thesis by blast
    qed
  qed
qed

lemma pt_returned_none:
  assumes pt: "process_transaction d t cs ce = (Inr res, d')"
      and cv: "check_velocity d (card_id t) (timestamp t) (amount t) = (Inr (triggered, count), d1)"
      and ef: "engineer_features d1 t count = Inr f"
      and no: "\<not> (predict d f \<ge> fraud_score_threshold (settings d) \<or> triggered)"
  shows "res = None \<and> d' = d1\<lparr>transactions_processed := transactions_processed d + 1\<rparr>"
proof -
  note fr = check_velocity_frame[OF cv]
  have p: "predict d1 f = predict d f" using fr by (intro predict_cong) simp_all
  have s: "settings d1 = settings d" and tp: "transactions_processed d1 = transactions_processed d"
    using fr by simp_all
  have "process_transaction d t cs ce =
      (Inr None, d1\<lparr>transactions_processed := transactions_processed d + 1\<rparr>)"
    unfolding pt_unfold[OF cv ef] p s tp using no by (simp only: if_False)
  with pt show ?thesis by simp
qed

lemma pt_returned_alert:
  assumes pt: "process_transaction d t cs ce = (Inr res, d')"
      and cv: "check_velocity d (card_id t) (timestamp t) (amount t) = (Inr (triggered, count), d1)"
      and ef: "engineer_features d1 t count = Inr f"
      and yes: "predict d f \<ge> fraud_score_threshold (settings d) \<or> triggered"
  shows "\<exists>alert. res = Some alert \<and>
           fraud_score alert = (if triggered then max (predict d f) 0.85 else predict d f) \<and>
           velocity_triggered alert = triggered \<and> alert_velocity_count alert = count \<and>
           d' = d1\<lparr>transactions_processed := transactions_processed d + 1,
                   velocity_violations := velocity_violations d + (if triggered then 1 else 0),
                   alerts_generated := alerts_generated d + 1\<rparr>"
proof -
  note fr = check_velocity_frame[OF cv]
  have p: "predict d1 f = predict d f" using fr by (intro predict_cong) simp_all
  have s: "settings d1 = settings d" and tp: "transactions_processed d1 = transactions_processed d"
    and vv: "velocity_violations d1 = velocity_violations d"
    and ag: "alerts_generated d1 = alerts_generated d"
    using fr by simp_all
  let ?final = "if triggered then max (predict d f) 0.85 else predict d f"
  note eq = pt_unfold[OF cv ef, of cs ce, unfolded p s tp vv ag if_P[OF yes]]
  show ?thesis
  proof (cases "0 \<le> ?final \<and> ?final \<le> 1")
    case False
    from eq[unfolded if_not_P[OF False]] pt show ?thesis by simp
  next
    case True
    from eq[unfolded if_P[OF True]] pt show ?thesis
      by (simp add: alert_fields split del: if_split)
  qed
qed

lemma window_of_counters:
  "window_of (d\<lparr>transactions_processed := a\<rparr>) cid = window_of d cid"
  "window_of (d\<lparr>transactions_processed := a, velocity_violations := b, alerts_generated := c\<rparr>) cid
     = window_of d cid"
  by (simp_all add: window_of_def)

lemma check_velocity_count:
  assumes "check_velocity d cid ts a = (Inr (triggered, count), d1)"
  shows "count = get_count (window_of d1 cid) \<and> triggered = (count > velocity_threshold (settings d))"
proof -
  from check_velocity_ok[OF assms] obtain wc where
    "d1 = set_window d cid (add_transaction wc ts a)"
    "count = get_count (add_transaction wc ts a)"
    "triggered = (count > velocity_threshold (settings d))" by blast
  then show ?thesis by (simp add: window_of_set_window)
qed

lemmas eval_defs = fallback_detector_def default_settings_def check_velocity_def window_of_def
  set_window_def new_window_def cleanup_def minus_seconds_def MIN_WALL_def MAX_WALL_def
  add_transaction_def get_count_def get_mean_amount_def dt_ge_def comparable_def utc_instant_def
  engineer_features_def valid_features_def hour_def weekday_def MERCHANT_CATEGORIES_def
  HIGH_RISK_LOCATIONS_def lower_def lower_char_def predict_def rule_based_score_def
  process_transaction_def Let_def sublist_code(3) determine_fraud_reason_def get_risk_level_def

lemma ex_clean:
  "process_transaction (fallback_detector default_settings) (purchase 25 (at_second 0)) 0 1000
   = (Inr None, (fallback_detector default_settings)\<lparr>velocity_windows :=
        [(''X'', \<lparr>timestamps = [at_second 0], amounts = [25]\<rparr>)],
        transactions_processed := 1\<rparr>)"
  by (simp add: eval_defs)

lemma ex_burst:
  "process_transaction burst_detector (purchase 60 (at_second 5)) 0 1000
   = (Inr (Some \<lparr>transaction_id = ''5f0c7a52-3c1e-4b5e-9a43-0d6b8a2f1c11'', card_id = ''X'',
         amount = 60, timestamp = at_second 5, location = ''Austin, TX'',
         merchant_category = ''grocery'', fraud_score = 0.85,
         fraud_reason = [VelocityViolation 6], risk_level = HIGH, velocity_triggered = True,
         alert_velocity_count = 6, latency_ms = 1\<rparr>),
      (fallback_detector default_settings)\<lparr>velocity_windows :=
        [(''X'', \<lparr>timestamps = [at_second 0, at_second 1, at_second 2, at_second 3, at_second 4,
                                at_second 5],
                 amounts = [10, 20, 30, 40, 50, 60]\<rparr>)],
        transactions_processed := 6, alerts_generated := 1, velocity_violations := 1\<rparr>)"
  by (simp add: eval_defs Transaction.extend_def FraudAlert.fields_def)

text \<open>
  Claim C4. When \<^verbatim>\<open>process_transaction\<close> returns, it returns an alert exactly when the
  score of the built features is at least \<^verbatim>\<open>fraud_score_threshold\<close> or the velocity check
  triggered; the velocity check triggered exactly when the count of the card's window
  after the insertion exceeds \<^verbatim>\<open>velocity_threshold\<close>. Otherwise it returns nothing.
\<close>

theorem alert_iff_score_or_velocity:
  assumes pt: "process_transaction d t cs ce = (Inr res, d')"
  shows "\<exists>triggered count f.
     built_features d t = Inr f \<and>
     count = get_count (window_of d' (card_id t)) \<and>
     triggered = (count > velocity_threshold (settings d)) \<and>
     (res \<noteq> None) = (predict d f \<ge> fraud_score_threshold (settings d) \<or> triggered)"
proof -
  from pt_returned_steps[OF pt] obtain triggered count d1 f where
    cv: "check_velocity d (card_id t) (timestamp t) (amount t) = (Inr (triggered, count), d1)" and
    ef: "engineer_features d1 t count = Inr f" by blast
  have bf: "built_features d t = Inr f" using cv ef by (simp add: built_features_def)
  note cnt = check_velocity_count[OF cv]
  show ?thesis
  proof (cases "predict d f \<ge> fraud_score_threshold (settings d) \<or> triggered")
    case True
    from pt_returned_alert[OF pt cv ef True] obtain alert where
      "res = Some alert"
      "d' = d1\<lparr>transactions_processed := transactions_processed d + 1,
                   velocity_violations := velocity_violations d + (if triggered then 1 else 0),
                   alerts_generated := alerts_generated d + 1\<rparr>" by blast
    with True bf cnt show ?thesis by (auto simp: window_of_counters)
  next
    case False
    from pt_returned_none[OF pt cv ef False] False bf cnt show ?thesis
      by (auto simp: window_of_counters)
  qed
qed

theorem alert_iff_score_or_velocity_witness:
  "process_transaction (fallback_detector default_settings) (purchase 25 (at_second 0)) 0 1000
   = (Inr None, (fallback_detector default_settings)\<lparr>velocity_windows :=
        [(''X'', \<lparr>timestamps = [at_second 0], amounts = [25]\<rparr>)],
        transactions_processed := 1\<rparr>) \<and>
   (\<exists>triggered count f.
      built_features (fallback_detector default_settings) (purchase 25 (at_second 0)) = Inr f \<and>
      count = 1 \<and> triggered = False \<and>
      \<not> (predict (fallback_detector default_settings) f \<ge> 0.7 \<or> triggered))"
  using alert_iff_score_or_velocity[OF ex_clean] ex_clean
  by (simp add: window_of_def get_count_def fallback_detector_def default_settings_def)

text \<open>
  Claim C5. An alert whose \<^verbatim>\<open>velocity_triggered\<close> is true carries the larger of the
  score and 0.85 as its \<^verbatim>\<open>fraud_score\<close>, so at least 0.85; an alert whose
  \<^verbatim>\<open>velocity_triggered\<close> is false carries the score unchanged.
\<close>

theorem alert_score_floor:
  assumes pt: "process_transaction d t cs ce = (Inr (Some alert), d')"
  shows "\<exists>f. built_features d t = Inr f \<and>
     fraud_score alert = (if velocity_triggered alert then max (predict d f) 0.85 else predict d f) \<and>
     (velocity_triggered alert \<longrightarrow> 0.85 \<le> fraud_score alert)"
proof -
  from pt_returned_steps[OF pt] obtain triggered count d1 f where
    cv: "check_velocity d (card_id t) (timestamp t) (amount t) = (Inr (triggered, count), d1)" and
    ef: "engineer_features d1 t count = Inr f" by blast
  have bf: "built_features d t = Inr f" using cv ef by (simp add: built_features_def)
  have yes: "predict d f \<ge> fraud_score_threshold (settings d) \<or> triggered"
  proof (rule ccontr)
    assume "\<not> ?thesis"
    from pt_returned_none[OF pt cv ef this] show False by simp
  qed
  from pt_returned_alert[OF pt cv ef yes] have
    "fraud_score alert = (if triggered then max (predict d f) 0.85 else predict d f)"
    "velocity_triggered alert = triggered" by auto
  with bf show ?thesis by auto
qed

theorem alert_score_floor_witness:
  "(\<exists>alert d'. process_transaction burst_detector (purchase 60 (at_second 5)) 0 1000
        = (Inr (Some alert), d') \<and>
      velocity_triggered alert \<and> fraud_score alert = 0.85 \<and>
      (\<exists>f. built_features burst_detector (purchase 60 (at_second 5)) = Inr f \<and>
           fraud_score alert = max (predict burst_detector f) 0.85))"
  using alert_score_floor[OF ex_burst] ex_burst by simp

text \<open>
  Claim C10. A call of \<^verbatim>\<open>process_transaction\<close> that returns adds one to
  \<^verbatim>\<open>transactions_processed\<close>. Returning no alert, it leaves \<^verbatim>\<open>alerts_generated\<close> and
  \<^verbatim>\<open>velocity_violations\<close> as they were; returning an alert, it adds one to
  \<^verbatim>\<open>alerts_generated\<close>, and one to \<^verbatim>\<open>velocity_violations\<close> exactly when the alert's
  \<^verbatim>\<open>velocity_triggered\<close> is true.
\<close>

theorem counters_step:
  assumes pt: "process_transaction d t cs ce = (Inr res, d')"
  shows "transactions_processed d' = transactions_processed d + 1 \<and>
     (case res of
        None \<Rightarrow> alerts_generated d' = alerts_generated d \<and>
                velocity_violations d' = velocity_violations d
      | Some alert \<Rightarrow>
          alerts_generated d' = alerts_generated d + 1 \<and>
          velocity_violations d' =
            velocity_violations d + (if velocity_triggered alert then 1 else 0))"
proof -
  from pt_returned_steps[OF pt] obtain triggered count d1 f where
    cv: "check_velocity d (card_id t) (timestamp t) (amount t) = (Inr (triggered, count), d1)" and
    ef: "engineer_features d1 t count = Inr f" by blast
  note fr = check_velocity_frame[OF cv]
  show ?thesis
  proof (cases "predict d f \<ge> fraud_score_threshold (settings d) \<or> triggered")
    case True
    from pt_returned_alert[OF pt cv ef True] obtain alert where
      "res = Some alert" "velocity_triggered alert = triggered"
      "d' = d1\<lparr>transactions_processed := transactions_processed d + 1,
                   velocity_violations := velocity_violations d + (if triggered then 1 else 0),
                   alerts_generated := alerts_generated d + 1\<rparr>" by blast
    then show ?thesis by simp
  next
    case False
    from pt_returned_none[OF pt cv ef False] fr show ?thesis by simp
  qed
qed

theorem counters_step_witness:
  "(\<exists>alert d'. process_transaction burst_detector (purchase 60 (at_second 5)) 0 1000
        = (Inr (Some alert), d') \<and> velocity_triggered alert \<and>
      transactions_processed d' = transactions_processed burst_detector + 1 \<and>
      alerts_generated d' = alerts_generated burst_detector + 1 \<and>
      velocity_violations d' = velocity_violations burst_detector + 1)"
  using counters_step[OF ex_burst] ex_burst by simp

subsection \<open>Scoring\<close>

lemma rule_based_score_range:
  assumes "0 \<le> location_risk f"
  shows "0 \<le> rule_based_score f \<and> rule_based_score f \<le> 1"
proof -
  have "0 \<le> location_risk f * 0.2" using assms by simp
  then show ?thesis unfolding rule_based_score_def Let_def by (simp split: if_splits)
qed

lemma clip01_range: "0 \<le> clip01 x \<and> clip01 x \<le> 1"
  by (simp add: clip01_def)

text \<open>
  Claim C7. For every feature vector within the bounds of its type, the score lies
  in \<open>[0, 1]\<close>: the rule-based score, and the score of \<^verbatim>\<open>_predict\<close> whatever model
  and scaler are loaded (clipped on the model path, the rule-based score when the model
  raises or none is loaded).
\<close>

theorem score_range:
  assumes "valid_features f"
  shows "0 \<le> rule_based_score f \<and> rule_based_score f \<le> 1 \<and>
         0 \<le> predict d f \<and> predict d f \<le> 1"
proof -
  have r: "0 \<le> rule_based_score f \<and> rule_based_score f \<le> 1"
    using assms by (intro rule_based_score_range) (simp add: valid_features_def)
  have "0 \<le> predict d f \<and> predict d f \<le> 1"
  proof (cases "model d")
    case None
    with r show ?thesis by (simp add: predict_def)
  next
    case (Some m)
    show ?thesis
    proof (cases "case scaler d of None \<Rightarrow> Inr (feature_vector f) | Some tr \<Rightarrow> tr (feature_vector f)")
      case (Inl e)
      with Some r show ?thesis by (simp add: predict_def)
    next
      case (Inr v)
      show ?thesis
      proof (cases m)
        case (PredictProba pp)
        with Some Inr r clip01_range show ?thesis
          by (simp add: predict_def split: sum.splits list.splits)
      next
        case (DecisionFunction df)
        with Some Inr r clip01_range show ?thesis
          by (simp add: predict_def split: sum.splits)
      next
        case (Predict pr)
        with Some Inr r clip01_range show ?thesis
          by (simp add: predict_def split: sum.splits)
      qed
    qed
  qed
  with r show ?thesis by simp
qed

theorem score_range_witness:
  "valid_features busy_features \<and>
   predict ((fallback_detector default_settings)\<lparr>model := Some (Predict (\<lambda>v. Inr 1))\<rparr>)
     busy_features = 0.9 \<and>
   0 \<le> predict ((fallback_detector default_settings)\<lparr>model := Some (Predict (\<lambda>v. Inr 1))\<rparr>)
     busy_features \<and>
   predict ((fallback_detector default_settings)\<lparr>model := Some (Predict (\<lambda>v. Inr 1))\<rparr>)
     busy_features \<le> 1"
proof -
  have v: "valid_features busy_features" by (simp add: valid_features_def)
  have "predict ((fallback_detector default_settings)\<lparr>model := Some (Predict (\<lambda>v. Inr 1))\<rparr>)
     busy_features = 0.9"
    by (simp add: predict_def fallback_detector_def clip01_def)
  with v score_range[OF v, of "(fallback_detector default_settings)\<lparr>model := Some (Predict (\<lambda>v. Inr 1))\<rparr>"]
  show ?thesis by simp
qed

text \<open>
  Claim C1. The claim's formula adds 0.3 above a velocity count of 3 and a further 0.5
  above 5. The source tests \<^verbatim>\<open>velocity_count > 5\<close> in the \<^verbatim>\<open>elif\<close> of
  \<^verbatim>\<open>velocity_count > 3\<close>, so that branch is never taken: at a count of 6 the source
  scores 0.44 where the claim's formula gives 0.94.
\<close>

theorem rule_score_misses_second_bonus:
  "rule_based_score busy_features = 0.44 \<and> spec_rule_based_score busy_features = 0.94"
  by (simp add: rule_based_score_def spec_rule_based_score_def)

text \<open>
  The branch is dead for every input, and up to a count of 5 the source and the claim's
  formula agree.
\<close>

lemma rule_score_branch_dead:
  "rule_based_score f =
     min (0.1 + (if velocity_count f > 3 then 0.3 else 0)
          + (if 2 \<le> hour_of_day f \<and> hour_of_day f \<le> 5 then 0.15 else 0)
          + (if amount_deviation f > 2 then 0.2 else 0)
          + 0.2 * location_risk f
          + (if amount_normalized f > 0.5 then 0.1 else 0)) 1"
  by (simp add: rule_based_score_def Let_def)

lemma rule_score_agrees_upto_five:
  "velocity_count f \<le> 5 \<Longrightarrow> rule_based_score f = spec_rule_based_score f"
  by (simp add: rule_score_branch_dead spec_rule_based_score_def)

subsection \<open>Amount deviation\<close>

text \<open>
  Claim C2, as stated, fails: the window mean is read after the current event has been
  inserted. After one purchase of 10, a purchase of 30 has deviation
  \<open>|30 - 20| / 20 = 0.5\<close> in the built features, where the mean before the insertion,
  10, would give \<open>|30 - 10| / 10 = 2\<close>.
\<close>

theorem deviation_uses_mean_after_insert:
  "built_features second_purchase_detector (purchase 30 (at_second 1)) =
     Inr \<lparr>amount_normalized = 0.003, hour_of_day = 14, day_of_week = 4, is_weekend = False,
          merchant_category_encoded = 0, velocity_count = 2, amount_deviation = 0.5,
          location_risk = 0.2\<rparr> \<and>
   spec_amount_deviation (prior_mean second_purchase_detector ''X'') 30 = 2 \<and>
   amount_deviation \<lparr>amount_normalized = 0.003, hour_of_day = 14, day_of_week = 4, is_weekend = False,
          merchant_category_encoded = 0, velocity_count = 2, amount_deviation = 0.5,
          location_risk = 0.2\<rparr>
     \<noteq> spec_amount_deviation (prior_mean second_purchase_detector ''X'') 30"
  by (simp add: built_features_def eval_defs prior_mean_def spec_amount_deviation_def)

lemma engineer_features_deviation:
  assumes "engineer_features d1 t count = Inr f"
  shows "amount_deviation f =
     min (case map_of (velocity_windows d1) (card_id t) of
            None \<Rightarrow> 0
          | Some window \<Rightarrow>
              if get_count window > 1
              then (if get_mean_amount window > 0
                    then \<bar>amount t - get_mean_amount window\<bar> / get_mean_amount window else 0)
              else 0) 5"
  using assms unfolding engineer_features_def Let_def
  by (auto split: if_splits)

lemma map_of_set_window:
  "map_of (velocity_windows (set_window d cid w)) cid = Some w"
  by (simp add: set_window_def update_conv')

text \<open>
  Claim C2, amended. The deviation in the built features is \<open>|amount - m| / m\<close> capped
  at 5, where \<open>m\<close> is the mean of the card's window after the stale entries were evicted
  and the current event inserted, provided that window then holds more than one entry
  and \<open>m > 0\<close>; otherwise it is 0, in particular for a card with no entry yet.
\<close>

theorem deviation_from_window_after_insert:
  assumes bf: "built_features d t = Inr f"
  shows "\<exists>wc. cleanup (window_of d (card_id t)) (velocity_window_seconds (settings d)) (timestamp t)
            = (None, wc) \<and>
     amount_deviation f =
       (if get_count (add_transaction wc (timestamp t) (amount t)) > 1 \<and>
           get_mean_amount (add_transaction wc (timestamp t) (amount t)) > 0
        then min (\<bar>amount t - get_mean_amount (add_transaction wc (timestamp t) (amount t))\<bar>
                  / get_mean_amount (add_transaction wc (timestamp t) (amount t))) 5
        else 0) \<and>
     (timestamps (window_of d (card_id t)) = [] \<longrightarrow> amount_deviation f = 0)"
proof -
  obtain r1 d1 where cv0: "check_velocity d (card_id t) (timestamp t) (amount t) = (r1, d1)"
    by (cases "check_velocity d (card_id t) (timestamp t) (amount t)")
  from bf cv0 obtain triggered count where
    cv: "check_velocity d (card_id t) (timestamp t) (amount t) = (Inr (triggered, count), d1)" and
    ef: "engineer_features d1 t count = Inr f"
    by (cases r1) (auto simp: built_features_def)
  from check_velocity_ok[OF cv] obtain wc where
    cl: "cleanup (window_of d (card_id t)) (velocity_window_seconds (settings d)) (timestamp t)
           = (None, wc)" and
    d1: "d1 = set_window d (card_id t) (add_transaction wc (timestamp t) (amount t))" by blast
  let ?w = "add_transaction wc (timestamp t) (amount t)"
  have dev: "amount_deviation f =
       (if get_count ?w > 1 \<and> get_mean_amount ?w > 0
        then min (\<bar>amount t - get_mean_amount ?w\<bar> / get_mean_amount ?w) 5 else 0)"
    using engineer_features_deviation[OF ef] by (simp add: d1 map_of_set_window)
  have first: "timestamps (window_of d (card_id t)) = [] \<longrightarrow> amount_deviation f = 0"
  proof
    assume e: "timestamps (window_of d (card_id t)) = []"
    from cleanup_timestamps[OF cl] e have "timestamps wc = []" by auto
    then have "get_count ?w = 1" by (simp add: get_count_def add_transaction_def)
    with dev show "amount_deviation f = 0" by simp
  qed
  from cl dev first show ?thesis by blast
qed

theorem deviation_from_window_after_insert_witness:
  "built_features second_purchase_detector (purchase 30 (at_second 1)) =
     Inr \<lparr>amount_normalized = 0.003, hour_of_day = 14, day_of_week = 4, is_weekend = False,
          merchant_category_encoded = 0, velocity_count = 2, amount_deviation = 0.5,
          location_risk = 0.2\<rparr> \<and>
   (\<exists>wc. cleanup (window_of second_purchase_detector (card_id (purchase 30 (at_second 1))))
            (velocity_window_seconds (settings second_purchase_detector))
            (timestamp (purchase 30 (at_second 1))) = (None, wc) \<and>
     amount_deviation \<lparr>amount_normalized = 0.003, hour_of_day = 14, day_of_week = 4, is_weekend = False,
          merchant_category_encoded = 0, velocity_count = 2, amount_deviation = 0.5,
          location_risk = 0.2\<rparr> =
       (if get_count (add_transaction wc (timestamp (purchase 30 (at_second 1)))
                        (amount (purchase 30 (at_second 1)))) > 1 \<and>
           get_mean_amount (add_transaction wc (timestamp (purchase 30 (at_second 1)))
                        (amount (purchase 30 (at_second 1)))) > 0
        then min (\<bar>amount (purchase 30 (at_second 1))
                    - get_mean_amount (add_transaction wc (timestamp (purchase 30 (at_second 1)))
                        (amount (purchase 30 (at_second 1))))\<bar>
                  / get_mean_amount (add_transaction wc (timestamp (purchase 30 (at_second 1)))
                        (amount (purchase 30 (at_second 1))))) 5
        else 0) \<and>
     (timestamps (window_of second_purchase_detector (card_id (purchase 30 (at_second 1)))) = []
        \<longrightarrow> amount_deviation \<lparr>amount_normalized = 0.003, hour_of_day = 14, day_of_week = 4, is_weekend = False,
          merchant_category_encoded = 0, velocity_count = 2, amount_deviation = 0.5,
          location_risk = 0.2\<rparr> = 0)) \<and>
   cleanup (window_of second_purchase_detector ''X'') 60 (at_second 1)
     = (None, \<lparr>timestamps = [at_second 0], amounts = [10]\<rparr>) \<and>
   get_mean_amount (add_transaction \<lparr>timestamps = [at_second 0], amounts = [10]\<rparr> (at_second 1) 30)
     = 20"
proof -
  have bf: "built_features second_purchase_detector (purchase 30 (at_second 1)) =
     Inr \<lparr>amount_normalized = 0.003, hour_of_day = 14, day_of_week = 4, is_weekend = False,
          merchant_category_encoded = 0, velocity_count = 2, amount_deviation = 0.5,
          location_risk = 0.2\<rparr>"
    by (simp add: built_features_def eval_defs)
  have cl: "cleanup (window_of second_purchase_detector ''X'') 60 (at_second 1)
     = (None, \<lparr>timestamps = [at_second 0], amounts = [10]\<rparr>)"
    by (simp add: eval_defs)
  have m: "get_mean_amount
      (add_transaction \<lparr>timestamps = [at_second 0], amounts = [10]\<rparr> (at_second 1) 30) = 20"
    by (simp add: eval_defs)
  show ?thesis
    by (rule conjI[OF bf conjI[OF deviation_from_window_after_insert[OF bf] conjI[OF cl m]]])
qed

subsection \<open>Dead letters\<close>













subsection \<open>The janitor\<close>

text \<open>
  Claim C8. The transactions of the stream carry aware timestamps (ISO-8601 with a
  trailing \<^verbatim>\<open>Z\<close>), and \<^verbatim>\<open>cleanup_old_windows\<close> subtracts the latest of them from the
  naive \<^verbatim>\<open>datetime.utcnow()\<close>: the subtraction raises \<^verbatim>\<open>TypeError\<close> before any
  window is removed. Six minutes after the only purchase on card \<open>X\<close>, the janitor
  leaves the detector as it was.
\<close>

theorem janitor_raises_on_aware_timestamp:
  "cleanup_old_windows idle_detector (1735914600000000 + 360 * 1000000)
     = (Some TypeError, idle_detector)"
  by (simp add: cleanup_old_windows_def dt_diff_def comparable_def fallback_detector_def)

text \<open>
  On windows that hold naive timestamps only, the janitor removes exactly the stale
  windows, and the next observation of a removed card counts one.
\<close>

lemma max_from_naive:
  assumes "utcoffset m = None" "\<forall>x \<in> set xs. utcoffset x = None"
  shows "\<exists>l. max_from m xs = Inr l \<and> utcoffset l = None \<and> wall l = Max (wall ` set (m # xs))"
  using assms
proof (induction xs arbitrary: m)
  case Nil
  then show ?case by simp
next
  case (Cons x xs)
  let ?m' = "if wall m < wall x then x else m"
  have step: "max_from m (x # xs) = max_from ?m' xs"
    using Cons.prems by (simp add: dt_gt_def comparable_def utc_instant_def)
  have "utcoffset ?m' = None" using Cons.prems by simp
  from Cons.IH[OF this] Cons.prems obtain l where
    l: "max_from ?m' xs = Inr l" "utcoffset l = None" "wall l = Max (wall ` set (?m' # xs))"
    by auto
  have "Max (wall ` set (?m' # xs)) = Max (wall ` set (m # x # xs))"
  proof (cases "xs = []")
    case True
    then show ?thesis by (simp add: max_def)
  next
    case False
    then have ne: "wall ` set xs \<noteq> {}" by simp
    have "Max (insert (wall ?m') (wall ` set xs)) = max (wall ?m') (Max (wall ` set xs))"
      using ne by (simp add: Max_insert)
    moreover have "Max (insert (wall m) (insert (wall x) (wall ` set xs)))
        = max (wall m) (max (wall x) (Max (wall ` set xs)))"
      using ne by (simp add: Max_insert)
    ultimately show ?thesis by (simp add: max_def)
  qed
  with l step show ?case by simp
qed

lemma cards_to_remove_naive:
  assumes "all_naive ws"
  shows "cards_to_remove \<lparr>wall = now, utcoffset = None\<rparr> ws
           = Inr (map fst (filter (\<lambda>(c, w). stale now w) ws))"
  using assms
proof (induction ws)
  case Nil
  then show ?case by simp
next
  case (Cons cw ws)
  obtain c w where cw: "cw = (c, w)" by (cases cw)
  from Cons.prems have rest: "all_naive ws" and here: "\<forall>ts \<in> set (timestamps w). utcoffset ts = None"
    by (auto simp: all_naive_def cw)
  note ih = Cons.IH[OF rest]
  show ?case
  proof (cases "timestamps w")
    case Nil
    with ih show ?thesis by (simp add: cw stale_def)
  next
    case (Cons x xs)
    from here Cons have "utcoffset x = None" "\<forall>y \<in> set xs. utcoffset y = None" by simp_all
    from max_from_naive[OF this] obtain l where
      l: "max_from x xs = Inr l" "utcoffset l = None" "wall l = Max (wall ` set (x # xs))" by blast
    have age: "dt_diff \<lparr>wall = now, utcoffset = None\<rparr> l = Inr (now - wall l)"
      using l(2) by (simp add: dt_diff_def comparable_def utc_instant_def)
    show ?thesis
      using ih l age Cons by (simp add: cw stale_def)
  qed
qed

lemma fold_delete_filter:
  "fold AList.delete cs ws = filter (\<lambda>(c, w). c \<notin> set cs) ws"
proof (induction cs arbitrary: ws)
  case Nil
  then show ?case by simp
next
  case (Cons c cs)
  have "AList.delete c ws = filter (\<lambda>(k, w). k \<noteq> c) ws"
    by (induction ws) (auto simp: AList.delete_eq)
  then show ?case using Cons.IH by (auto simp: case_prod_unfold intro: filter_cong)
qed

lemma stale_keys_filter:
  assumes "distinct (map fst ws)"
  shows "filter (\<lambda>(c, w). c \<notin> set (map fst (filter (\<lambda>(c, w). P w) ws))) ws
       = filter (\<lambda>(c, w). \<not> P w) ws"
proof (rule filter_cong[OF refl])
  fix cw assume m: "cw \<in> set ws"
  obtain c w where cw: "cw = (c, w)" by (cases cw)
  have "(c \<in> fst ` {x \<in> set ws. P (snd x)}) = P w"
  proof
    assume "c \<in> fst ` {x \<in> set ws. P (snd x)}"
    then obtain w' where "(c, w') \<in> set ws" "P w'" by auto
    with assms m cw have "w' = w" by (meson eq_key_imp_eq_value)
    with \<open>P w'\<close> show "P w" by simp
  next
    assume "P w"
    with m cw show "c \<in> fst ` {x \<in> set ws. P (snd x)}" by force
  qed
  then show "(case cw of (c, w) \<Rightarrow> c \<notin> set (map fst (filter (\<lambda>(c, w). P w) ws)))
      = (case cw of (c, w) \<Rightarrow> \<not> P w)"
    by (simp add: cw case_prod_unfold)
qed

lemma janitor_on_naive_timestamps:
  assumes "all_naive (velocity_windows d)" and "distinct (map fst (velocity_windows d))"
  shows "cleanup_old_windows d now
     = (None, d\<lparr>velocity_windows := filter (\<lambda>(c, w). \<not> stale now w) (velocity_windows d)\<rparr>)"
proof -
  have "cleanup_old_windows d now
     = (None, d\<lparr>velocity_windows :=
          fold AList.delete (map fst (filter (\<lambda>(c, w). stale now w) (velocity_windows d)))
            (velocity_windows d)\<rparr>)"
    by (simp only: cleanup_old_windows_def cards_to_remove_naive[OF assms(1)] sum.case)
  then show ?thesis
    by (simp only: fold_delete_filter stale_keys_filter[OF assms(2)])
qed

lemma fresh_window_counts_one:
  assumes "map_of (velocity_windows d) cid = None"
      and "check_velocity d cid ts a = (Inr (triggered, count), d')"
  shows "count = 1"
proof -
  from check_velocity_ok[OF assms(2)] obtain wc where
    cl: "cleanup (window_of d cid) (velocity_window_seconds (settings d)) ts = (None, wc)" and
    c: "count = get_count (add_transaction wc ts a)" by blast
  from assms(1) have "timestamps (window_of d cid) = []"
    by (simp add: window_of_def new_window_def)
  with cleanup_timestamps[OF cl] have "timestamps wc = []" by auto
  with c show ?thesis by (simp add: get_count_def add_transaction_def)
qed

end
